theory Spec2Isabelle
  imports Main "HOL-Library.Multiset" "HOL-Library.AList"
    "HOL-Library.Char_ord" "HOL-Library.List_Lexorder"
begin

section \<open>Strings and numbers of the JavaScript runtime\<close>

text \<open>
  Strings are modelled as \<^typ>\<open>string\<close>; the text handled by the command line
  (task ids, status names, file paths) is taken to be ASCII. Numbers that the code
  obtains from \<^verbatim>\<open>Number.parseInt\<close> are modelled as \<^typ>\<open>int\<close>; \<^verbatim>\<open>NaN\<close> is
  \<^term>\<open>None\<close>. A JavaScript number represents every integer up to \<open>2^53\<close> exactly and
  prints it with all its digits; beyond that it rounds, and from \<open>10^21\<close> on it prints an
  exponent. The model is the program on numbers below \<open>2^53\<close> only, and a statement
  about the value of an allocated id carries this bound as a hypothesis.
\<close>

definition startsWith :: "string \<Rightarrow> string \<Rightarrow> bool" where
  "startsWith s p = (take (length p) s = p)"

definition isDigit :: "char \<Rightarrow> bool" where
  "isDigit c = (c \<in> set ''0123456789'')"

definition isDigitOrDot :: "char \<Rightarrow> bool" where
  "isDigitOrDot c = (isDigit c \<or> c = CHR ''.'')"

definition isWhiteSpace :: "char \<Rightarrow> bool" where
  "isWhiteSpace c = (c \<in> set [CHR '' '', CHR 0x09, CHR 0x0A, CHR 0x0B, CHR 0x0C, CHR 0x0D])"


text \<open>\<^verbatim>\<open>s.split(sep)\<close> for a one-character separator; the result is never empty.\<close>

fun splitOn :: "char \<Rightarrow> string \<Rightarrow> string list" where
  "splitOn sep [] = [[]]"
| "splitOn sep (c # cs) =
     (if c = sep then [] # splitOn sep cs
      else (case splitOn sep cs of
              [] \<Rightarrow> [[c]]
            | w # ws \<Rightarrow> (c # w) # ws))"

definition digitValue :: "char \<Rightarrow> nat" where
  "digitValue c = of_char c - 48"

definition decimalValue :: "string \<Rightarrow> nat" where
  "decimalValue ds = foldl (\<lambda>n c. 10 * n + digitValue c) 0 ds"

text \<open>
  \<^verbatim>\<open>Number.parseInt(s, 10)\<close>: leading white space is skipped, an optional sign is read,
  then the longest run of decimal digits; without a digit the result is \<^verbatim>\<open>NaN\<close>.
\<close>

definition parseInt :: "string \<Rightarrow> int option" where
  "parseInt s =
     (let t = dropWhile isWhiteSpace s;
          neg = (case t of [] \<Rightarrow> False | c # _ \<Rightarrow> c = CHR ''-'');
          u = (case t of [] \<Rightarrow> [] | c # r \<Rightarrow> if c = CHR ''-'' \<or> c = CHR ''+'' then r else t);
          ds = takeWhile isDigit u
      in if ds = [] then None
         else Some (if neg then - int (decimalValue ds) else int (decimalValue ds)))"

definition digitChar :: "nat \<Rightarrow> char" where
  "digitChar d = ''0123456789'' ! d"

fun natToString :: "nat \<Rightarrow> string" where
  "natToString n =
     (if n < 10 then [digitChar n] else natToString (n div 10) @ [digitChar (n mod 10)])"

declare natToString.simps [simp del]

text \<open>The decimal rendering of an integer inside a template literal.\<close>

definition numberToString :: "int \<Rightarrow> string" where
  "numberToString n = (if n < 0 then CHR ''-'' # natToString (nat (- n)) else natToString (nat n))"

section \<open>Tasks\<close>

datatype priority = High | Medium | Low

record task =
  task_id :: string
  title :: string
  status :: string
  assignee :: "string list"
  createdDate :: string
  updatedDate :: "string option"
  labels :: "string list"
  dependencies :: "string list"
  description :: string
  parentTaskId :: "string option"
  priority :: "priority option"

text \<open>
  The working copy as the command line reads it: the results of
  \<^verbatim>\<open>core.filesystem.listTasks()\<close> and \<^verbatim>\<open>core.filesystem.listDrafts()\<close>.
\<close>

record filesystem =
  tasks :: "task list"
  drafts :: "task list"

text \<open>
  The git operations are an external collaborator; each call either yields its result
  or throws (\<^term>\<open>None\<close>, for \<^verbatim>\<open>fetch\<close> the value \<^term>\<open>False\<close>).
\<close>

record gitOps =
  fetch :: bool
  listAllBranches :: "string list option"
  listFilesInTree :: "string \<Rightarrow> string \<Rightarrow> string list option"

section \<open>Identifier allocation: \<^verbatim>\<open>generateNextId\<close>\<close>

text \<open>
  \<^verbatim>\<open>file.match(/task-([\d.]+)/)\<close>: the leftmost occurrence of \<^verbatim>\<open>task-\<close> that is followed
  by at least one digit or dot; the result is the captured group.
\<close>

fun matchTaskFile :: "string \<Rightarrow> string option" where
  "matchTaskFile [] = None"
| "matchTaskFile (c # cs) =
     (if startsWith (c # cs) ''task-'' \<and> takeWhile isDigitOrDot (drop 5 (c # cs)) \<noteq> []
      then Some (takeWhile isDigitOrDot (drop 5 (c # cs)))
      else matchTaskFile cs)"

definition taskIdOfFile :: "string \<Rightarrow> string option" where
  "taskIdOfFile file = map_option (\<lambda>m. ''task-'' @ m) (matchTaskFile file)"

definition branchTaskIds :: "gitOps \<Rightarrow> string \<Rightarrow> string list option" where
  "branchTaskIds g branch =
     map_option (List.map_filter taskIdOfFile) (listFilesInTree g branch ''backlog/tasks'')"

text \<open>\<^verbatim>\<open>Promise.all\<close>: the results in the order of the promises, or the rejection.\<close>

fun promiseAll :: "'a option list \<Rightarrow> 'a list option" where
  "promiseAll [] = Some []"
| "promiseAll (p # ps) =
     (case p of
        None \<Rightarrow> None
      | Some x \<Rightarrow> (case promiseAll ps of None \<Rightarrow> None | Some xs \<Rightarrow> Some (x # xs)))"

text \<open>
  The body of the \<^verbatim>\<open>try\<close> block: \<^term>\<open>None\<close> when any git call throws, in which case
  nothing has been pushed to \<^verbatim>\<open>allIds\<close> (the pushes follow the \<^verbatim>\<open>Promise.all\<close>).
\<close>

definition remoteTaskIds :: "gitOps \<Rightarrow> string list option" where
  "remoteTaskIds g =
     (if \<not> fetch g then None
      else (case listAllBranches g of
              None \<Rightarrow> None
            | Some branches \<Rightarrow>
                map_option concat (promiseAll (map (branchTaskIds g) branches))))"

text \<open>\<^verbatim>\<open>id.match(/^task-(\d+)/)\<close>: the captured digits.\<close>

definition matchTopLevel :: "string \<Rightarrow> string option" where
  "matchTopLevel ident =
     (if startsWith ident ''task-'' \<and> takeWhile isDigit (drop 5 ident) \<noteq> []
      then Some (takeWhile isDigit (drop 5 ident))
      else None)"

text \<open>One iteration of the two top-level loops over ids.\<close>

definition topLevelStep :: "string \<Rightarrow> int \<Rightarrow> int" where
  "topLevelStep ident mx =
     (case matchTopLevel ident of
        None \<Rightarrow> mx
      | Some d \<Rightarrow>
          (case parseInt (if d = [] then ''0'' else d) of
             None \<Rightarrow> mx
           | Some num \<Rightarrow> if num > mx then num else mx))"

text \<open>One iteration of the two loops of the sub-task branch.\<close>

definition subtaskStep :: "string \<Rightarrow> string \<Rightarrow> int \<Rightarrow> int" where
  "subtaskStep prefix ident mx =
     (if startsWith ident (prefix @ ''.'') then
        (let rest = drop (length prefix + 1) ident;
             seg = (case splitOn CHR ''.'' rest of [] \<Rightarrow> [] | w # _ \<Rightarrow> w)
         in (case parseInt (if seg = [] then ''0'' else seg) of
               None \<Rightarrow> mx
             | Some num \<Rightarrow> if num > mx then num else mx))
      else mx)"

text \<open>An optional string used as a condition: absent and empty are both falsy.\<close>

definition truthy :: "string option \<Rightarrow> bool" where
  "truthy v = (case v of None \<Rightarrow> False | Some s \<Rightarrow> s \<noteq> [])"

text \<open>
  \<^verbatim>\<open>generateNextId(core, parent)\<close>. The first argument says whether the environment
  variable \<^verbatim>\<open>DEBUG\<close> is set. The result is the id together with the lines written to
  the error stream.
\<close>

definition generateNextId ::
  "bool \<Rightarrow> filesystem \<Rightarrow> gitOps \<Rightarrow> string option \<Rightarrow> string \<times> string list" where
  "generateNextId debug fs g parent =
     (let allTasks = tasks fs @ drafts fs;
          (allIds, errs) =
            (case remoteTaskIds g of
               Some ids \<Rightarrow> (ids, [])
             | None \<Rightarrow> ([], if debug then [''Could not fetch remote task IDs:''] else []))
      in if truthy parent then
           (let p = (case parent of None \<Rightarrow> [] | Some s \<Rightarrow> s);
                prefix = (if startsWith p ''task-'' then p else ''task-'' @ p);
                mx1 = fold (subtaskStep prefix) (map task_id (tasks fs)) 0;
                mx2 = fold (subtaskStep prefix) allIds mx1
            in (prefix @ ''.'' @ numberToString (mx2 + 1), errs))
         else
           (let mx1 = fold topLevelStep (map task_id allTasks) 0;
                mx2 = fold topLevelStep allIds mx1
            in (''task-'' @ numberToString (mx2 + 1), errs)))"

section \<open>The task list grouped by status\<close>

text \<open>
  The configuration as \<^verbatim>\<open>core.filesystem.loadConfig()\<close> returns it; the command line
  reads \<^verbatim>\<open>config?.statuses\<close> and \<^verbatim>\<open>config?.taskResolutionStrategy\<close>.
\<close>

record config =
  statuses :: "string list option"
  taskResolutionStrategy :: "string option"

text \<open>\<^verbatim>\<open>config?.statuses || []\<close>\<close>

definition configStatuses :: "config option \<Rightarrow> string list" where
  "configStatuses cfg =
     (case cfg of
        None \<Rightarrow> []
      | Some c \<Rightarrow> (case statuses c of None \<Rightarrow> [] | Some l \<Rightarrow> l))"

definition toLowerChar :: "char \<Rightarrow> char" where
  "toLowerChar c =
     (if CHR ''A'' \<le> c \<and> c \<le> CHR ''Z'' then char_of (of_char c + (32 :: nat)) else c)"

definition toLowerCase :: "string \<Rightarrow> string" where
  "toLowerCase s = map toLowerChar s"

text \<open>
  A JavaScript \<^verbatim>\<open>Map\<close> iterates its keys in insertion order and \<^verbatim>\<open>set\<close> on a present
  key keeps the key's position: an association list updated with \<^const>\<open>AList.update\<close>.
  The loop body of the grouping (\<^verbatim>\<open>task.status || ""\<close> is the status itself):
\<close>

definition groupStep ::
  "'a task_scheme \<Rightarrow> (string \<times> 'a task_scheme list) list \<Rightarrow> (string \<times> 'a task_scheme list) list"
  where
  "groupStep t groups =
     (let st = status t;
          l = (case map_of groups st of None \<Rightarrow> [] | Some l \<Rightarrow> l)
      in AList.update st (l @ [t]) groups)"

definition groupByStatus :: "'a task_scheme list \<Rightarrow> (string \<times> 'a task_scheme list) list" where
  "groupByStatus filtered = fold groupStep filtered []"

text \<open>The array \<^verbatim>\<open>ordered\<close> of the status names to print.\<close>

definition orderedStatuses :: "string list \<Rightarrow> (string \<times> 'b) list \<Rightarrow> string list" where
  "orderedStatuses sts groups =
     filter (\<lambda>s. map_of groups s \<noteq> None) sts @ filter (\<lambda>s. s \<notin> set sts) (map fst groups)"

text \<open>The groups that the printing loop visits, in order, each with its tasks.\<close>

definition listGroups ::
  "'a task_scheme list \<Rightarrow> string list \<Rightarrow> (string \<times> 'a task_scheme list) list" where
  "listGroups filtered sts =
     (let groups = groupByStatus filtered
      in List.map_filter (\<lambda>s. map_option (Pair s) (map_of groups s)) (orderedStatuses sts groups))"

definition printGroup :: "string \<times> 'a task_scheme list \<Rightarrow> string list" where
  "printGroup g =
     ((if fst g = [] then ''No Status'' else fst g) @ '':'')
       # map (\<lambda>t. ''  '' @ task_id t @ '' - '' @ title t) (snd g) @ [[]]"

record listOptions =
  list_status :: "string option"
  list_assignee :: "string option"

text \<open>The action of \<^verbatim>\<open>task list --plain\<close>: the lines written to the output.\<close>

definition taskListPlain :: "listOptions \<Rightarrow> task list \<Rightarrow> config option \<Rightarrow> string list" where
  "taskListPlain options allTasks cfg =
     (let byStatus =
            (case list_status options of
               None \<Rightarrow> allTasks
             | Some st \<Rightarrow>
                 if st = [] then allTasks
                 else filter (\<lambda>t. toLowerCase (status t) = toLowerCase st) allTasks);
          filtered =
            (case list_assignee options of
               None \<Rightarrow> byStatus
             | Some a \<Rightarrow> if a = [] then byStatus else filter (\<lambda>t. a \<in> set (assignee t)) byStatus)
      in if filtered = [] then [''No tasks found.'']
         else concat (map printGroup (listGroups filtered (configStatuses cfg))))"

text \<open>The order in which the values of a list are first met.\<close>

fun firstSeen :: "'a list \<Rightarrow> 'a list" where
  "firstSeen [] = []"
| "firstSeen (x # xs) = x # filter (\<lambda>y. y \<noteq> x) (firstSeen xs)"

section \<open>Creating a task with dependencies\<close>








definition stringOr :: "string option \<Rightarrow> string" where
  "stringOr v = (case v of None \<Rightarrow> [] | Some s \<Rightarrow> s)"









section \<open>The board: merging local and remote records\<close>

text \<open>
  \<^verbatim>\<open>TaskWithMetadata\<close> is declared in \<^verbatim>\<open>core/remote-tasks.ts\<close>, which is not among the
  sources; the command line sets its field \<^verbatim>\<open>source\<close>. The other two fields follow the
  specification: the origin branch of a provenance record, and the commit timestamp that
  conflict resolution falls back to when a record has no \<^verbatim>\<open>updatedDate\<close>. Dates and
  timestamps are ISO-8601 strings, which the lexicographic order compares
  chronologically.
\<close>

datatype source = Local | Remote

record taskWithMetadata = task +
  source :: source
  originBranch :: "string option"
  commitTimestamp :: string

text \<open>\<^verbatim>\<open>config?.taskResolutionStrategy || "most_progressed"\<close>\<close>

definition resolutionStrategy :: "config option \<Rightarrow> string" where
  "resolutionStrategy cfg =
     (case cfg of
        None \<Rightarrow> ''most_progressed''
      | Some c \<Rightarrow>
          (if truthy (taskResolutionStrategy c) then stringOr (taskResolutionStrategy c)
           else ''most_progressed''))"

text \<open>
  \<^verbatim>\<open>new Map(localTasks.map((t) => [t.id, { ...t, source: "local" }]))\<close>: of two local
  records with one id the later one stays, at the position of the first.
\<close>

definition localTasksById :: "taskWithMetadata list \<Rightarrow> (string \<times> taskWithMetadata) list" where
  "localTasksById localTasks =
     fold (\<lambda>t m. AList.update (task_id t) (t\<lparr>source := Local\<rparr>) m) localTasks []"

text \<open>
  The loop that merges the remote records into the map. \<^verbatim>\<open>resolveTaskConflict\<close> is
  imported from a file that is not among the sources, so the loop takes it as its first
  argument; it returns a record or throws.
\<close>

fun mergeRemoteTasks ::
  "(taskWithMetadata \<Rightarrow> taskWithMetadata \<Rightarrow> string list \<Rightarrow> string \<Rightarrow> 'e + taskWithMetadata) \<Rightarrow>
   string list \<Rightarrow> string \<Rightarrow> (string \<times> taskWithMetadata) list \<Rightarrow> taskWithMetadata list \<Rightarrow>
   'e + (string \<times> taskWithMetadata) list" where
  "mergeRemoteTasks resolveConflict sts strategy tasksById [] = Inr tasksById"
| "mergeRemoteTasks resolveConflict sts strategy tasksById (remoteTask # rest) =
     (case map_of tasksById (task_id remoteTask) of
        None \<Rightarrow>
          mergeRemoteTasks resolveConflict sts strategy
            (AList.update (task_id remoteTask) remoteTask tasksById) rest
      | Some existing \<Rightarrow>
          (case resolveConflict existing remoteTask sts strategy of
             Inl e \<Rightarrow> Inl e
           | Inr resolved \<Rightarrow>
               mergeRemoteTasks resolveConflict sts strategy
                 (AList.update (task_id remoteTask) resolved tasksById) rest))"

text \<open>
  \<^verbatim>\<open>handleBoardView\<close> up to the list \<^verbatim>\<open>allTasks\<close> handed to the renderer. The three
  imported functions whose files are not among the sources are arguments:
  \<^verbatim>\<open>resolveTaskConflict\<close>, \<^verbatim>\<open>getLatestTaskStatesForIds\<close> (applied to git already) and
  \<^verbatim>\<open>filterTasksByLatestState\<close>. The local and remote records are the results of
  \<^verbatim>\<open>core.listTasksWithMetadata()\<close> and \<^verbatim>\<open>loadRemoteTasks(core.gitOps)\<close>.
\<close>

definition handleBoardView ::
  "(taskWithMetadata \<Rightarrow> taskWithMetadata \<Rightarrow> string list \<Rightarrow> string \<Rightarrow> 'e + taskWithMetadata) \<Rightarrow>
   (string list \<Rightarrow> 'd) \<Rightarrow> (taskWithMetadata list \<Rightarrow> 'd \<Rightarrow> taskWithMetadata list) \<Rightarrow>
   config option \<Rightarrow> taskWithMetadata list \<Rightarrow> taskWithMetadata list \<Rightarrow>
   'e + taskWithMetadata list" where
  "handleBoardView resolveConflict latestStatesForIds filterByLatestState cfg localTasks remoteTasks =
     (let sts = configStatuses cfg;
          strategy = resolutionStrategy cfg
      in (case mergeRemoteTasks resolveConflict sts strategy (localTasksById localTasks) remoteTasks of
            Inl e \<Rightarrow> Inl e
          | Inr tasksById \<Rightarrow>
              (let ts = map snd tasksById;
                   taskIds = map task_id ts;
                   latestTaskDirectories = latestStatesForIds taskIds
               in Inr (filterByLatestState ts latestTaskDirectories))))"

section \<open>Conflict resolution\<close>

datatype configError = UnknownConflictStrategy string

text \<open>
  Modelled from the spec: the rank of a status in section 4.3 is its index in the
  configured order, \<open>-1\<close> when it is not there.
\<close>

fun indexOf :: "string list \<Rightarrow> string \<Rightarrow> int" where
  "indexOf [] s = -1"
| "indexOf (x # xs) s = (if x = s then 0 else (let i = indexOf xs s in if i < 0 then -1 else i + 1))"

text \<open>
  Modelled from the spec: the date that section 4.3 compares is \<^verbatim>\<open>updatedDate\<close>, or the
  commit timestamp when the record has none.
\<close>

definition effectiveDate :: "taskWithMetadata \<Rightarrow> string" where
  "effectiveDate t = (case updatedDate t of None \<Rightarrow> commitTimestamp t | Some d \<Rightarrow> d)"

text \<open>
  Modelled from the spec: \<^verbatim>\<open>resolveTaskConflict\<close> of \<^verbatim>\<open>core/remote-tasks.ts\<close> is not among
  the sources. Section 4.3, in its order: two records that are identical as task
  records need no decision; \<^verbatim>\<open>most_progressed\<close> compares the ranks of the statuses, then
  the dates, and keeps the local record on a full tie; \<^verbatim>\<open>most_recent\<close> compares the
  dates only, the local record winning a tie; any other strategy name is a
  configuration error.
\<close>

definition resolveTaskConflict ::
  "taskWithMetadata \<Rightarrow> taskWithMetadata \<Rightarrow> string list \<Rightarrow> string \<Rightarrow> configError + taskWithMetadata"
  where
  "resolveTaskConflict existing incoming statusOrder strategy =
     (if task.truncate existing = task.truncate incoming then Inr existing
      else if strategy = ''most_progressed'' then
        (let localRank = indexOf statusOrder (status existing);
             remoteRank = indexOf statusOrder (status incoming)
         in if remoteRank > localRank then Inr incoming
            else if localRank > remoteRank then Inr existing
            else if effectiveDate incoming > effectiveDate existing then Inr incoming
            else Inr existing)
      else if strategy = ''most_recent'' then
        (if effectiveDate incoming > effectiveDate existing then Inr incoming else Inr existing)
      else Inl (UnknownConflictStrategy strategy))"

section \<open>The latest location of a task\<close>

text \<open>
  Modelled from the spec: the observations of section 3. One is made for every copy of a
  task file, on a branch or in the local working copy, with the time of the last change.
\<close>

datatype locationKind = Active | Draft | Archived

datatype branchRef = LocalWorkingCopy | Branch string

record locationObservation =
  obs_taskId :: string
  obs_branch :: branchRef
  locationKind :: locationKind
  timestamp :: nat

fun kindRank :: "locationKind \<Rightarrow> nat" where
  "kindRank Active = 2"
| "kindRank Draft = 1"
| "kindRank Archived = 0"

fun originRank :: "branchRef \<Rightarrow> nat" where
  "originRank LocalWorkingCopy = 1"
| "originRank (Branch b) = 0"

fun branchName :: "branchRef \<Rightarrow> string" where
  "branchName LocalWorkingCopy = []"
| "branchName (Branch b) = b"

text \<open>
  Modelled from the spec: the resolver of the latest location
  (\<^verbatim>\<open>getLatestTaskStatesForIds\<close> of \<^verbatim>\<open>core/cross-branch-tasks.ts\<close>) is not among the
  sources. Section 4.2: the later timestamp wins; on equal timestamps active is preferred
  to draft and draft to archived; then the local working copy to a branch. The section
  requires the choice not to depend on the order of collection, and section 5 that
  observations are ordered by value: two branches that still tie are ordered by name.
\<close>

definition preferred :: "locationObservation \<Rightarrow> locationObservation \<Rightarrow> bool" where
  "preferred a b =
     (timestamp a > timestamp b \<or>
      (timestamp a = timestamp b \<and>
       (kindRank (locationKind a) > kindRank (locationKind b) \<or>
        (kindRank (locationKind a) = kindRank (locationKind b) \<and>
         (originRank (obs_branch a) > originRank (obs_branch b) \<or>
          (originRank (obs_branch a) = originRank (obs_branch b) \<and>
           branchName (obs_branch a) < branchName (obs_branch b)))))))"

text \<open>
  Modelled from the spec: the resolver keeps, for every task id, the preferred one of the
  observations met so far.
\<close>

definition resolveStep ::
  "locationObservation \<Rightarrow> (string \<rightharpoonup> locationObservation) \<Rightarrow> (string \<rightharpoonup> locationObservation)" where
  "resolveStep ob m =
     (case m (obs_taskId ob) of
        None \<Rightarrow> m(obs_taskId ob \<mapsto> ob)
      | Some cur \<Rightarrow> if preferred ob cur then m(obs_taskId ob \<mapsto> ob) else m)"

text \<open>
  Modelled from the spec: \<^verbatim>\<open>resolve(observations)\<close> of section 4.2; an id without an
  observation is absent from the result.
\<close>

definition resolveLocations :: "locationObservation list \<Rightarrow> (string \<rightharpoonup> locationObservation)" where
  "resolveLocations observations = fold resolveStep observations Map.empty"

section \<open>Assembling the board\<close>

text \<open>
  Modelled from the spec: a resolved task of section 3 is the record chosen for a task
  id, paired with the resolved location of that id.
\<close>

record resolvedTask =
  resolvedRecord :: taskWithMetadata
  resolvedLocation :: locationObservation

text \<open>
  Modelled from the spec: \<^verbatim>\<open>filterTasksByLatestState\<close> of \<^verbatim>\<open>core/cross-branch-tasks.ts\<close>
  and the grouping of the board renderer are not among the sources. Section 4.4: every
  resolved task whose location is not active is filtered out; the survivors are grouped
  by status, the groups ordered by the configured statuses and then by first occurrence,
  which is the grouping of the task list above.
\<close>

definition filterTasksByLatestState :: "resolvedTask list \<Rightarrow> resolvedTask list" where
  "filterTasksByLatestState resolved =
     filter (\<lambda>r. locationKind (resolvedLocation r) = Active) resolved"

text \<open>Modelled from the spec: \<^verbatim>\<open>assemble(resolvedTasks, statusOrder)\<close> of section 4.4.\<close>

definition assemble ::
  "resolvedTask list \<Rightarrow> string list \<Rightarrow> (string \<times> taskWithMetadata list) list" where
  "assemble resolved statusOrder =
     listGroups (map resolvedRecord (filterTasksByLatestState resolved)) statusOrder"

section \<open>Notions used to state the properties\<close>

text \<open>The top-level number \<open>n\<close> of an id \<^verbatim>\<open>task-n\<close> or \<^verbatim>\<open>task-n.m\<close>.\<close>

definition topLevelNumber :: "string \<Rightarrow> int option" where
  "topLevelNumber ident = map_option (\<lambda>d. int (decimalValue d)) (matchTopLevel ident)"

text \<open>
  Some git call of the allocation throws: the fetch, the enumeration of the branches or
  the listing of a branch.
\<close>

definition gitUnavailable :: "gitOps \<Rightarrow> bool" where
  "gitUnavailable g =
     (\<not> fetch g \<or>
      (case listAllBranches g of
         None \<Rightarrow> True
       | Some branches \<Rightarrow> \<exists>b\<in>set branches. listFilesInTree g b ''backlog/tasks'' = None))"

text \<open>
  The ids of the task files that a branch holds under \<^verbatim>\<open>backlog/tasks\<close>, the directory of
  its active tasks. The drafts and the archived tasks of a branch lie in other
  directories.
\<close>

definition branchActiveIds :: "gitOps \<Rightarrow> string \<Rightarrow> string list" where
  "branchActiveIds g branch =
     (case listFilesInTree g branch ''backlog/tasks'' of
        None \<Rightarrow> []
      | Some files \<Rightarrow> List.map_filter taskIdOfFile files)"

text \<open>
  The ids that top-level allocation takes into account: those of the local tasks, of the
  local drafts and, when git is available, of the active task files of every branch.
\<close>

definition visibleIds :: "filesystem \<Rightarrow> gitOps \<Rightarrow> string list" where
  "visibleIds fs g =
     map task_id (tasks fs) @ map task_id (drafts fs) @
     (if gitUnavailable g then []
      else concat (map (branchActiveIds g)
             (case listAllBranches g of None \<Rightarrow> [] | Some branches \<Rightarrow> branches)))"

text \<open>
  The ids whose numbers JavaScript represents exactly, so that reading, comparing,
  incrementing and printing them is the integer arithmetic of this model.
\<close>

definition safeIds :: "string list \<Rightarrow> bool" where
  "safeIds ids = (\<forall>n\<in>set (List.map_filter topLevelNumber ids). n < 2 ^ 53)"

subsection \<open>Concrete inputs\<close>

definition exampleTask :: "string \<Rightarrow> task" where
  "exampleTask ident =
     \<lparr>task_id = ident, title = ''T'', status = ''To Do'', assignee = [],
      createdDate = ''2025-06-30'', updatedDate = None, labels = [], dependencies = [],
      description = [], parentTaskId = None, priority = None\<rparr>"

text \<open>Git without a reachable remote, and a repository that has no branch to scan.\<close>

definition offlineGit :: gitOps where
  "offlineGit = \<lparr>fetch = False, listAllBranches = None, listFilesInTree = (\<lambda>branch path. None)\<rparr>"

definition noBranches :: gitOps where
  "noBranches =
     \<lparr>fetch = True, listAllBranches = Some [], listFilesInTree = (\<lambda>branch path. Some [])\<rparr>"

text \<open>
  A repository whose branch \<^verbatim>\<open>main\<close> holds an active task, a draft and an archived task.
\<close>

definition branchWithDraft :: gitOps where
  "branchWithDraft =
     \<lparr>fetch = True,
      listAllBranches = Some [''main''],
      listFilesInTree = (\<lambda>branch path.
        if path = ''backlog/tasks'' then Some [''backlog/tasks/task-1 - First.md'']
        else if path = ''backlog/drafts'' then Some [''backlog/drafts/task-7 - Spike.md'']
        else if path = ''backlog/archive/tasks'' then Some [''backlog/archive/tasks/task-9 - Old.md'']
        else Some [])\<rparr>"


text \<open>A board example: two tasks of configured statuses and two of unknown ones.\<close>

definition exampleStatuses :: "string list" where
  "exampleStatuses = [''To Do'', ''In Progress'', ''Done'']"

definition exampleList :: "task list" where
  "exampleList =
     [(exampleTask ''task-1'')\<lparr>status := ''Blocked''\<rparr>,
      (exampleTask ''task-2'')\<lparr>status := ''Done''\<rparr>,
      (exampleTask ''task-3'')\<lparr>status := ''Review''\<rparr>,
      exampleTask ''task-4'',
      (exampleTask ''task-5'')\<lparr>status := ''Blocked''\<rparr>]"





text \<open>Records of the board example: a local record and remote records of two branches.\<close>

definition withMetadata :: "task \<Rightarrow> source \<Rightarrow> string option \<Rightarrow> string \<Rightarrow> taskWithMetadata" where
  "withMetadata t src br ts =
     task.extend t
       (taskWithMetadata.fields src br ts)"

definition localOne :: taskWithMetadata where
  "localOne = withMetadata (exampleTask ''task-1'') Local None ''2025-07-01T10:00:00Z''"

definition remoteOne :: taskWithMetadata where
  "remoteOne =
     withMetadata ((exampleTask ''task-1'')\<lparr>status := ''Done''\<rparr>) Remote (Some ''origin/feature'')
       ''2025-06-01T10:00:00Z''"

definition remoteTwo :: taskWithMetadata where
  "remoteTwo = withMetadata (exampleTask ''task-2'') Remote (Some ''origin/main'') ''2025-07-02T10:00:00Z''"

definition remoteTwoOther :: taskWithMetadata where
  "remoteTwoOther =
     withMetadata ((exampleTask ''task-2'')\<lparr>status := ''Done''\<rparr>) Remote (Some ''origin/feature'')
       ''2025-07-04T10:00:00Z''"

definition configWith :: "string option \<Rightarrow> config" where
  "configWith strategy = \<lparr>statuses = Some exampleStatuses, taskResolutionStrategy = strategy\<rparr>"

text \<open>A resolver that rejects every call, to observe whether the pipeline calls it at all.\<close>

definition rejectingResolver ::
  "taskWithMetadata \<Rightarrow> taskWithMetadata \<Rightarrow> string list \<Rightarrow> string \<Rightarrow> string + taskWithMetadata" where
  "rejectingResolver existing incoming sts strategy = Inl strategy"

text \<open>Observations of one task with equal timestamps, collected in two orders.\<close>

definition observed :: "string \<Rightarrow> branchRef \<Rightarrow> locationKind \<Rightarrow> nat \<Rightarrow> locationObservation" where
  "observed tid b k ts = \<lparr>obs_taskId = tid, obs_branch = b, locationKind = k, timestamp = ts\<rparr>"

definition exampleObservations :: "locationObservation list" where
  "exampleObservations =
     [observed ''task-1'' (Branch ''origin/main'') Archived 20,
      observed ''task-1'' (Branch ''origin/feature'') Active 20,
      observed ''task-1'' LocalWorkingCopy Draft 10,
      observed ''task-2'' (Branch ''origin/main'') Draft 30]"

text \<open>Resolved tasks of the board example: one active, one moved to the drafts, one archived.\<close>

definition exampleResolved :: "resolvedTask list" where
  "exampleResolved =
     [\<lparr>resolvedRecord = localOne,
       resolvedLocation = observed ''task-1'' LocalWorkingCopy Active 20\<rparr>,
      \<lparr>resolvedRecord = remoteTwo,
       resolvedLocation = observed ''task-2'' (Branch ''origin/main'') Draft 30\<rparr>,
      \<lparr>resolvedRecord =
         withMetadata ((exampleTask ''task-3'')\<lparr>status := ''Review''\<rparr>) Remote (Some ''origin/main'')
           ''2025-07-03T10:00:00Z'',
       resolvedLocation = observed ''task-3'' (Branch ''origin/main'') Active 5\<rparr>,
      \<lparr>resolvedRecord = withMetadata (exampleTask ''task-4'') Local None ''2025-07-03T10:00:00Z'',
       resolvedLocation = observed ''task-4'' (Branch ''origin/old'') Archived 40\<rparr>]"

section \<open>Identifier allocation at the top level\<close>

lemma isDigit_not_space: "isDigit c \<Longrightarrow> \<not> isWhiteSpace c \<and> c \<noteq> CHR ''-'' \<and> c \<noteq> CHR ''+''"
  by (auto simp: isDigit_def isWhiteSpace_def)

lemma parseInt_digits:
  assumes "ds \<noteq> []" and "\<forall>c\<in>set ds. isDigit c"
  shows "parseInt ds = Some (int (decimalValue ds))"
proof -
  obtain c r where ds: "ds = c # r" using assms(1) by (cases ds) auto
  have c: "isDigit c" using assms(2) ds by simp
  have tw: "takeWhile isDigit ds = ds" using assms(2) by (simp add: takeWhile_eq_all_conv)
  show ?thesis
    using isDigit_not_space[OF c] tw assms(1) unfolding parseInt_def ds Let_def
    by simp
qed

lemma matchTopLevel_digits:
  "matchTopLevel ident = Some d \<Longrightarrow> d \<noteq> [] \<and> (\<forall>c\<in>set d. isDigit c)"
  by (auto simp: matchTopLevel_def split: if_splits dest: set_takeWhileD)

lemma topLevelStep_eq:
  "topLevelStep ident mx = (case topLevelNumber ident of None \<Rightarrow> mx | Some n \<Rightarrow> max mx n)"
proof (cases "matchTopLevel ident")
  case None
  then show ?thesis by (simp add: topLevelStep_def topLevelNumber_def)
next
  case (Some d)
  then have "d \<noteq> []" and "parseInt d = Some (int (decimalValue d))"
    using matchTopLevel_digits[OF Some] parseInt_digits by auto
  then show ?thesis using Some by (auto simp: topLevelStep_def topLevelNumber_def)
qed

lemma fold_topLevelStep:
  "fold topLevelStep ids mx = Max (insert mx (set (List.map_filter topLevelNumber ids)))"
proof (induction ids arbitrary: mx)
  case Nil
  then show ?case by (simp add: List.map_filter_simps)
next
  case (Cons a ids)
  show ?case
  proof (cases "topLevelNumber a")
    case None
    then show ?thesis using Cons by (simp add: List.map_filter_simps topLevelStep_eq)
  next
    case (Some n)
    let ?S = "set (List.map_filter topLevelNumber ids)"
    have "Max (insert (max mx n) ?S) = Max (insert mx (insert n ?S))"
      by (cases "?S = {}") (auto simp: max.assoc)
    then show ?thesis using Cons Some by (simp add: List.map_filter_simps topLevelStep_eq)
  qed
qed

lemma promiseAll_None: "promiseAll ps = None \<longleftrightarrow> None \<in> set ps"
  by (induction ps) (auto split: option.splits)

lemma promiseAll_branches:
  "\<forall>b\<in>set bs. listFilesInTree g b ''backlog/tasks'' \<noteq> None \<Longrightarrow>
   promiseAll (map (branchTaskIds g) bs) = Some (map (branchActiveIds g) bs)"
  by (induction bs) (auto simp: branchTaskIds_def branchActiveIds_def)

lemma promiseAll_rejected:
  assumes "b \<in> set bs" and "listFilesInTree g b ''backlog/tasks'' = None"
  shows "promiseAll (map (branchTaskIds g) bs) = None"
proof -
  have "branchTaskIds g b = None" using assms(2) by (simp add: branchTaskIds_def)
  then have "None \<in> set (map (branchTaskIds g) bs)" using assms(1) by force
  then show ?thesis by (simp only: promiseAll_None)
qed

lemma remoteTaskIds_eq:
  "(case remoteTaskIds g of None \<Rightarrow> [] | Some ids \<Rightarrow> ids) =
     (if gitUnavailable g then []
      else concat (map (branchActiveIds g)
             (case listAllBranches g of None \<Rightarrow> [] | Some branches \<Rightarrow> branches)))"
proof (cases "listAllBranches g")
  case None
  then show ?thesis by (simp add: remoteTaskIds_def gitUnavailable_def)
next
  case (Some bs)
  show ?thesis
  proof (cases "\<exists>b\<in>set bs. listFilesInTree g b ''backlog/tasks'' = None")
    case True
    then obtain b where "b \<in> set bs" "listFilesInTree g b ''backlog/tasks'' = None" by blast
    then have "promiseAll (map (branchTaskIds g) bs) = None" by (rule promiseAll_rejected)
    moreover have "gitUnavailable g" using True Some by (simp add: gitUnavailable_def)
    ultimately show ?thesis using Some by (simp add: remoteTaskIds_def)
  next
    case False
    then have "\<forall>b\<in>set bs. listFilesInTree g b ''backlog/tasks'' \<noteq> None" by simp
    then have pa: "promiseAll (map (branchTaskIds g) bs) = Some (map (branchActiveIds g) bs)"
      by (rule promiseAll_branches)
    have gu: "gitUnavailable g = (\<not> fetch g)"
      using False Some by (auto simp: gitUnavailable_def)
    show ?thesis
      by (cases "fetch g") (simp_all add: remoteTaskIds_def Some pa gu)
  qed
qed

text \<open>
  Claim C2, amended. Let the ids taken into account be those of the local tasks, of the
  local drafts and of the task files under \<^verbatim>\<open>backlog/tasks\<close> of every branch (none of the
  branches when a git call fails), and let their top-level numbers be below \<open>2^53\<close>. Then
  \<^const>\<open>generateNextId\<close> without a parent returns \<^verbatim>\<open>task-(m+1)\<close>, where \<open>m\<close> is the greatest
  top-level number among these ids (\<open>0\<close> when there is none). For the ids \<^verbatim>\<open>task-1\<close>,
  \<^verbatim>\<open>task-2\<close>, \<^verbatim>\<open>task-2.1\<close> the result is \<^verbatim>\<open>task-3\<close>.
\<close>

theorem generateNextId_top_level:
  assumes "\<not> truthy parent" and "safeIds (visibleIds fs g)"
  shows "fst (generateNextId debug fs g parent) =
    ''task-'' @ numberToString
      (Max (insert 0 (set (List.map_filter topLevelNumber (visibleIds fs g)))) + 1)"
proof -
  have eq: "map task_id (tasks fs) @ map task_id (drafts fs) @
      (case remoteTaskIds g of None \<Rightarrow> [] | Some ids \<Rightarrow> ids) = visibleIds fs g"
    unfolding visibleIds_def remoteTaskIds_eq ..
  have "fst (generateNextId debug fs g parent) =
      ''task-'' @ numberToString
        (fold topLevelStep
           (map task_id (tasks fs) @ map task_id (drafts fs) @
            (case remoteTaskIds g of None \<Rightarrow> [] | Some ids \<Rightarrow> ids)) 0 + 1)"
    using assms(1) by (simp add: generateNextId_def Let_def split: option.splits)
  then have "fst (generateNextId debug fs g parent) =
      ''task-'' @ numberToString (fold topLevelStep (visibleIds fs g) 0 + 1)"
    unfolding eq .
  then show ?thesis unfolding fold_topLevelStep .
qed

theorem generateNextId_top_level_witness:
  "\<not> truthy None \<and>
   visibleIds
     \<lparr>tasks = [exampleTask ''task-1'', exampleTask ''task-2''],
      drafts = [exampleTask ''task-2.1'']\<rparr> noBranches
     = [''task-1'', ''task-2'', ''task-2.1''] \<and>
   safeIds [''task-1'', ''task-2'', ''task-2.1''] \<and>
   fst (generateNextId False
     \<lparr>tasks = [exampleTask ''task-1'', exampleTask ''task-2''],
      drafts = [exampleTask ''task-2.1'']\<rparr>
     noBranches None) = ''task-3''"
proof -
  let ?fs = "\<lparr>tasks = [exampleTask ''task-1'', exampleTask ''task-2''],
      drafts = [exampleTask ''task-2.1'']\<rparr>"
  have t: "\<not> truthy None" by (simp add: truthy_def)
  have v: "visibleIds ?fs noBranches = [''task-1'', ''task-2'', ''task-2.1'']"
    by code_simp
  have n: "List.map_filter topLevelNumber [''task-1'', ''task-2'', ''task-2.1''] = [1, 2, 2]"
    by code_simp
  have b: "safeIds [''task-1'', ''task-2'', ''task-2.1'']"
    unfolding safeIds_def n by simp
  have b': "safeIds (visibleIds ?fs noBranches)" unfolding v by (rule b)
  have m: "''task-'' @ numberToString
      (Max (insert 0 (set (List.map_filter topLevelNumber [''task-1'', ''task-2'', ''task-2.1'']))) + 1)
      = ''task-3''"
    by code_simp
  have r: "fst (generateNextId False ?fs noBranches None) = ''task-3''"
    using generateNextId_top_level[OF t b', of False] unfolding v m .
  show ?thesis using t v b r by (intro conjI)
qed

text \<open>
  Claim C2 as stated counts every id that is visible on a scanned branch. The allocation
  lists only \<^verbatim>\<open>backlog/tasks\<close> of a branch: the draft \<^verbatim>\<open>task-7\<close> and the archived \<^verbatim>\<open>task-9\<close>
  of the branch \<^verbatim>\<open>main\<close> are not seen, and \<^verbatim>\<open>task-2\<close> is handed out.
\<close>

theorem generateNextId_branch_drafts_counterexample:
  "map_option (List.map_filter taskIdOfFile) (listFilesInTree branchWithDraft ''main'' ''backlog/drafts'')
     = Some [''task-7''] \<and>
   map_option (List.map_filter taskIdOfFile)
     (listFilesInTree branchWithDraft ''main'' ''backlog/archive/tasks'') = Some [''task-9''] \<and>
   fst (generateNextId False \<lparr>tasks = [exampleTask ''task-1''], drafts = []\<rparr> branchWithDraft None)
     = ''task-2''"
  by code_simp

section \<open>Identifier allocation under a parent\<close>

text \<open>
  Claim C3. Under a parent \<open>p\<close> the next id should be \<^verbatim>\<open>p.(m+1)\<close> with \<open>m\<close> the greatest
  sub-task number over the local tasks, the local drafts and the branches. The loops
  of the sub-task branch read the local tasks and the branch ids but not the local
  drafts: with the draft \<^verbatim>\<open>task-2.1\<close> the id \<^verbatim>\<open>task-2.1\<close> is handed out again, whereas the
  same id as a local task gives \<^verbatim>\<open>task-2.2\<close>.
\<close>

theorem generateNextId_subtask_skips_drafts:
  "fst (generateNextId False
     \<lparr>tasks = [exampleTask ''task-1'', exampleTask ''task-2''],
      drafts = [exampleTask ''task-2.1'']\<rparr>
     noBranches (Some ''task-2'')) = ''task-2.1'' \<and>
   fst (generateNextId False
     \<lparr>tasks = [exampleTask ''task-1'', exampleTask ''task-2'', exampleTask ''task-2.1''],
      drafts = []\<rparr>
     noBranches (Some ''task-2'')) = ''task-2.2''"
  by code_simp

section \<open>Identifier allocation when git is unavailable\<close>

lemma remoteTaskIds_None: "remoteTaskIds g = None \<longleftrightarrow> gitUnavailable g"
  by (auto simp: remoteTaskIds_def gitUnavailable_def promiseAll_None branchTaskIds_def
      split: option.splits)

lemma remoteTaskIds_noBranches: "remoteTaskIds noBranches = Some []"
  by (simp add: remoteTaskIds_def noBranches_def)

text \<open>
  Claim C5, amended. When the fetch, the enumeration of the branches or the listing of a
  branch fails, \<^const>\<open>generateNextId\<close> still returns an id, the one computed from the
  local data alone (the id it returns for a repository without branches). The failure is
  reported on the error stream only when \<^verbatim>\<open>DEBUG\<close> is set; otherwise it is suppressed.
\<close>

theorem generateNextId_git_unavailable:
  assumes "gitUnavailable g"
  shows "fst (generateNextId debug fs g parent) = fst (generateNextId debug fs noBranches parent) \<and>
    snd (generateNextId debug fs g parent) =
      (if debug then [''Could not fetch remote task IDs:''] else [])"
proof -
  have "remoteTaskIds g = None" using assms by (simp add: remoteTaskIds_None)
  then show ?thesis
    by (simp add: generateNextId_def remoteTaskIds_noBranches Let_def)
qed

theorem generateNextId_git_unavailable_witness:
  "gitUnavailable offlineGit \<and>
   generateNextId True \<lparr>tasks = [exampleTask ''task-4''], drafts = []\<rparr> offlineGit None =
     (''task-5'', [''Could not fetch remote task IDs:''])"
proof -
  have u: "gitUnavailable offlineGit" by (simp add: gitUnavailable_def offlineGit_def)
  have l: "fst (generateNextId True \<lparr>tasks = [exampleTask ''task-4''], drafts = []\<rparr> noBranches None) = ''task-5''"
    by code_simp
  show ?thesis
    using generateNextId_git_unavailable[OF u, of True "\<lparr>tasks = [exampleTask ''task-4''], drafts = []\<rparr>" None] u
    unfolding l by (simp add: prod_eq_iff)
qed

text \<open>
  Claim C5 as stated asks for a warning in every such invocation; without \<^verbatim>\<open>DEBUG\<close>
  nothing is written.
\<close>

theorem generateNextId_silent_counterexample:
  "gitUnavailable offlineGit \<and>
   generateNextId False \<lparr>tasks = [exampleTask ''task-4''], drafts = []\<rparr> offlineGit None =
     (''task-5'', [])"
  by code_simp

section \<open>The grouped task list\<close>

lemma groupStep_keys:
  "map fst (groupStep t acc) =
     (if status t \<in> fst ` set acc then map fst acc else map fst acc @ [status t])"
  by (simp add: groupStep_def Let_def update_keys)

lemma groupStep_map_of:
  "map_of (groupStep t acc) =
     (map_of acc)(status t \<mapsto> (case map_of acc (status t) of None \<Rightarrow> [] | Some l \<Rightarrow> l) @ [t])"
  by (simp add: groupStep_def Let_def update_conv')

lemma firstSeen_set: "set (firstSeen xs) = set xs"
  by (induction xs) auto

lemma firstSeen_distinct: "distinct (firstSeen xs)"
  by (induction xs) (auto simp: firstSeen_set)

lemma fold_groupStep_keys:
  "map fst (fold groupStep ts acc) =
     map fst acc @ filter (\<lambda>s. s \<notin> fst ` set acc) (firstSeen (map status ts))"
proof (induction ts arbitrary: acc)
  case Nil
  then show ?case by simp
next
  case (Cons t ts)
  have keys: "fst ` set (groupStep t acc) = insert (status t) (fst ` set acc)"
    by (simp add: groupStep_def Let_def dom_update)
  show ?case
    by (simp add: Cons.IH keys groupStep_keys conj_commute cong: filter_cong)
qed

lemma fold_groupStep_map_of:
  "map_of (fold groupStep ts acc) s =
     (if s \<in> status ` set ts \<or> map_of acc s \<noteq> None
      then Some ((case map_of acc s of None \<Rightarrow> [] | Some l \<Rightarrow> l) @ filter (\<lambda>t. status t = s) ts)
      else None)"
proof (induction ts arbitrary: acc)
  case Nil
  then show ?case by (auto split: option.splits)
next
  case (Cons t ts)
  show ?case
    by (auto simp: Cons.IH groupStep_map_of split: option.splits)
qed

lemma groupByStatus_keys: "map fst (groupByStatus ts) = firstSeen (map status ts)"
  by (simp add: groupByStatus_def fold_groupStep_keys)

lemma groupByStatus_map_of:
  "map_of (groupByStatus ts) s =
     (if s \<in> status ` set ts then Some (filter (\<lambda>t. status t = s) ts) else None)"
  by (simp add: groupByStatus_def fold_groupStep_map_of)

text \<open>The groups in closed form, for every list of configured statuses.\<close>

lemma listGroups_eq:
  "listGroups ts sts =
     map (\<lambda>s. (s, filter (\<lambda>t. status t = s) ts))
       (filter (\<lambda>s. s \<in> status ` set ts) sts @
        filter (\<lambda>s. s \<notin> set sts) (firstSeen (map status ts)))"
proof -
  let ?K = "filter (\<lambda>s. s \<in> status ` set ts) sts @
        filter (\<lambda>s. s \<notin> set sts) (firstSeen (map status ts))"
  have K: "orderedStatuses sts (groupByStatus ts) = ?K"
    by (simp add: orderedStatuses_def groupByStatus_keys groupByStatus_map_of)
  have "List.map_filter (\<lambda>s. map_option (Pair s) (map_of (groupByStatus ts) s)) ks =
        map (\<lambda>s. (s, filter (\<lambda>t. status t = s) ts)) ks"
    if "set ks \<subseteq> status ` set ts" for ks
    using that by (induction ks) (auto simp: List.map_filter_simps groupByStatus_map_of)
  moreover have "set ?K \<subseteq> status ` set ts" by (auto simp: firstSeen_set)
  ultimately show ?thesis by (simp add: listGroups_def K Let_def)
qed

lemma listGroups_keys_distinct:
  "distinct sts \<Longrightarrow> distinct (map fst (listGroups ts sts))"
  by (auto simp: listGroups_eq comp_def firstSeen_set firstSeen_distinct)

lemma listGroups_keys_set: "set (map fst (listGroups ts sts)) = status ` set ts"
  by (auto simp: listGroups_eq comp_def firstSeen_set)

lemma concat_filter_mset:
  "distinct ks \<Longrightarrow>
   mset (concat (map (\<lambda>s. filter (\<lambda>t. f t = s) ts) ks)) = mset (filter (\<lambda>t. f t \<in> set ks) ts)"
proof (induction ks)
  case Nil
  then show ?case by simp
next
  case (Cons k ks)
  have "mset (filter (\<lambda>t. f t = k) ts) + mset (filter (\<lambda>t. f t \<in> set ks) ts) =
        mset (filter (\<lambda>t. f t = k \<or> f t \<in> set ks) ts)"
    using Cons.prems by (induction ts) auto
  then show ?case using Cons by simp
qed

lemma listGroups_tasks_set: "set (concat (map snd (listGroups ts sts))) = set ts"
  by (auto simp: listGroups_eq comp_def firstSeen_set)

text \<open>
  Claim C4, amended. For every list of tasks and every list of configured statuses
  without repeated entries, the groups of the plain task list come in the order of the
  configured statuses, followed by the statuses that are not configured in the order in
  which the tasks first show them; each group holds the tasks of its status in input
  order; no status heads two groups, and every task is in exactly one group.
\<close>

theorem listGroups_ordered_partition:
  assumes "distinct sts"
  shows "map fst (listGroups ts sts) =
           filter (\<lambda>s. s \<in> status ` set ts) sts @
           filter (\<lambda>s. s \<notin> set sts) (firstSeen (map status ts)) \<and>
         map snd (listGroups ts sts) =
           map (\<lambda>s. filter (\<lambda>t. status t = s) ts) (map fst (listGroups ts sts)) \<and>
         distinct (map fst (listGroups ts sts)) \<and>
         mset (concat (map snd (listGroups ts sts))) = mset ts \<and>
         (\<forall>t \<in> set ts. \<exists>!i. i < length (listGroups ts sts) \<and> t \<in> set (snd (listGroups ts sts ! i)))"
proof -
  let ?K = "map fst (listGroups ts sts)"
  have k: "?K = filter (\<lambda>s. s \<in> status ` set ts) sts @
           filter (\<lambda>s. s \<notin> set sts) (firstSeen (map status ts))"
    by (simp add: listGroups_eq comp_def)
  have g: "listGroups ts sts = map (\<lambda>s. (s, filter (\<lambda>t. status t = s) ts)) ?K"
    unfolding k by (rule listGroups_eq)
  have s: "map snd (listGroups ts sts) = map (\<lambda>s. filter (\<lambda>t. status t = s) ts) ?K"
    by (subst g) (simp add: comp_def)
  have d: "distinct ?K" using assms by (rule listGroups_keys_distinct)
  have ks: "set ?K = status ` set ts" by (rule listGroups_keys_set)
  have "filter (\<lambda>t. status t \<in> set ?K) ts = ts"
    unfolding ks by (simp add: filter_id_conv)
  then have m: "mset (concat (map snd (listGroups ts sts))) = mset ts"
    unfolding s using concat_filter_mset[OF d, of status ts] by simp
  have u: "\<exists>!i. i < length (listGroups ts sts) \<and> t \<in> set (snd (listGroups ts sts ! i))"
    if t: "t \<in> set ts" for t
  proof -
    have mem: "t \<in> set (snd (listGroups ts sts ! i)) \<longleftrightarrow> ?K ! i = status t"
      if "i < length ?K" for i
    proof -
      have "snd (listGroups ts sts ! i) = map snd (listGroups ts sts) ! i"
        using that by simp
      also have "\<dots> = filter (\<lambda>t. status t = ?K ! i) ts"
        unfolding s using that by simp
      finally show ?thesis using t by auto
    qed
    have "status t \<in> set ?K" using ks t by blast
    then obtain i where i: "i < length ?K" "?K ! i = status t"
      by (auto simp: in_set_conv_nth)
    show ?thesis
    proof (rule ex1I[of _ i])
      show "i < length (listGroups ts sts) \<and> t \<in> set (snd (listGroups ts sts ! i))"
        using i(1) mem[OF i(1)] i(2) by simp
    next
      fix j
      assume j: "j < length (listGroups ts sts) \<and> t \<in> set (snd (listGroups ts sts ! j))"
      then have j1: "j < length ?K" by simp
      then have "?K ! j = status t" using mem[OF j1] j by simp
      then have "?K ! j = ?K ! i" using i(2) by simp
      then show "j = i" using nth_eq_iff_index_eq[OF d j1 i(1)] by simp
    qed
  qed
  show ?thesis
  proof (intro conjI ballI)
    show "map fst (listGroups ts sts) =
           filter (\<lambda>s. s \<in> status ` set ts) sts @
           filter (\<lambda>s. s \<notin> set sts) (firstSeen (map status ts))" by (rule k)
    show "map snd (listGroups ts sts) =
           map (\<lambda>s. filter (\<lambda>t. status t = s) ts) (map fst (listGroups ts sts))" by (rule s)
    show "distinct (map fst (listGroups ts sts))" by (rule d)
    show "mset (concat (map snd (listGroups ts sts))) = mset ts" by (rule m)
    show "\<exists>!i. i < length (listGroups ts sts) \<and> t \<in> set (snd (listGroups ts sts ! i))"
      if "t \<in> set ts" for t using that by (rule u)
  qed
qed

theorem listGroups_ordered_partition_witness:
  "distinct exampleStatuses \<and>
   map fst (listGroups exampleList exampleStatuses) = [''To Do'', ''Done'', ''Blocked'', ''Review''] \<and>
   map (map task_id \<circ> snd) (listGroups exampleList exampleStatuses) =
     [[''task-4''], [''task-2''], [''task-1'', ''task-5''], [''task-3'']] \<and>
   mset (concat (map snd (listGroups exampleList exampleStatuses))) = mset exampleList"
proof -
  have d: "distinct exampleStatuses" by (simp add: exampleStatuses_def)
  have k: "filter (\<lambda>s. s \<in> status ` set exampleList) exampleStatuses @
           filter (\<lambda>s. s \<notin> set exampleStatuses) (firstSeen (map status exampleList))
           = [''To Do'', ''Done'', ''Blocked'', ''Review'']"
    by code_simp
  have c: "map (map task_id \<circ> snd) (listGroups exampleList exampleStatuses) =
     [[''task-4''], [''task-2''], [''task-1'', ''task-5''], [''task-3'']]"
    by code_simp
  note p = listGroups_ordered_partition[OF d, of exampleList]
  have a: "map fst (listGroups exampleList exampleStatuses) = [''To Do'', ''Done'', ''Blocked'', ''Review'']"
    using p[THEN conjunct1] unfolding k .
  have m: "mset (concat (map snd (listGroups exampleList exampleStatuses))) = mset exampleList"
    using p[THEN conjunct2, THEN conjunct2, THEN conjunct2, THEN conjunct1] .
  show ?thesis using d a c m by (intro conjI)
qed

text \<open>
  Claim C4 as stated covers every list of configured statuses. A status that is
  configured twice heads two groups, and its tasks are listed in both.
\<close>

theorem listGroups_repeated_status_counterexample:
  "listGroups [exampleTask ''task-1''] [''To Do'', ''To Do''] =
     [(''To Do'', [exampleTask ''task-1'']), (''To Do'', [exampleTask ''task-1''])]"
  by code_simp

section \<open>Creating a task with dependencies\<close>







section \<open>The strategy identifier in the board pipeline\<close>

lemma update_new_key: "k \<notin> fst ` set al \<Longrightarrow> AList.update k v al = al @ [(k, v)]"
  by (induction al) auto

lemma map_of_None_iff: "map_of al k = None \<longleftrightarrow> k \<notin> fst ` set al"
  by (simp add: map_of_eq_None_iff)

lemma mergeRemoteTasks_no_collision:
  assumes "distinct (map task_id rs)" and "task_id ` set rs \<inter> fst ` set m = {}"
  shows "mergeRemoteTasks rc sts s m rs = Inr (m @ map (\<lambda>r. (task_id r, r)) rs)"
  using assms
proof (induction rs arbitrary: m)
  case Nil
  then show ?case by simp
next
  case (Cons r rs)
  have new: "task_id r \<notin> fst ` set m" using Cons.prems(2) by auto
  have d: "distinct (map task_id rs)" using Cons.prems(1) by simp
  have "task_id ` set rs \<inter> fst ` set (m @ [(task_id r, r)]) = {}"
    using Cons.prems by auto
  from Cons.IH[OF d this] show ?case
    using new by (simp add: map_of_None_iff[symmetric] update_new_key)
qed

lemma mergeRemoteTasks_append:
  "mergeRemoteTasks rc sts s m (pre @ rs) =
     (case mergeRemoteTasks rc sts s m pre of
        Inl e \<Rightarrow> Inl e
      | Inr m' \<Rightarrow> mergeRemoteTasks rc sts s m' rs)"
  by (induction pre arbitrary: m) (auto split: option.splits sum.splits)

lemma localTasksById_keys:
  "fst ` set (fold (\<lambda>t m. AList.update (task_id t) (t\<lparr>source := Local\<rparr>) m) ls acc) =
     fst ` set acc \<union> task_id ` set ls"
  by (induction ls arbitrary: acc) (auto simp: dom_update)

lemma localTasksById_dom: "fst ` set (localTasksById ls) = task_id ` set ls"
  by (simp add: localTasksById_def localTasksById_keys)

lemma mergeRemoteTasks_cong:
  assumes "\<And>x y. rc x y sts s = rc' x y sts s"
  shows "mergeRemoteTasks rc sts s m rs = mergeRemoteTasks rc' sts s m rs"
proof (induction rs arbitrary: m)
  case Nil
  then show ?case by simp
next
  case (Cons r rs)
  then show ?case by (simp add: assms split: option.splits sum.splits)
qed

text \<open>
  The merge fails exactly when, after a prefix of the remote records has been merged, the
  next record meets a loaded record of its id and the resolver rejects the two.
\<close>

lemma mergeRemoteTasks_fails_iff:
  "mergeRemoteTasks rc sts s m rs = Inl e \<longleftrightarrow>
     (\<exists>pre r rest loaded existing.
        rs = pre @ r # rest \<and>
        mergeRemoteTasks rc sts s m pre = Inr loaded \<and>
        map_of loaded (task_id r) = Some existing \<and>
        rc existing r sts s = Inl e)"
proof
  assume "\<exists>pre r rest loaded existing.
        rs = pre @ r # rest \<and>
        mergeRemoteTasks rc sts s m pre = Inr loaded \<and>
        map_of loaded (task_id r) = Some existing \<and>
        rc existing r sts s = Inl e"
  then show "mergeRemoteTasks rc sts s m rs = Inl e"
    by (auto simp: mergeRemoteTasks_append)
next
  assume "mergeRemoteTasks rc sts s m rs = Inl e"
  then show "\<exists>pre r rest loaded existing.
        rs = pre @ r # rest \<and>
        mergeRemoteTasks rc sts s m pre = Inr loaded \<and>
        map_of loaded (task_id r) = Some existing \<and>
        rc existing r sts s = Inl e"
  proof (induction rs arbitrary: m)
    case Nil
    then show ?case by simp
  next
    case (Cons a rs)
    show ?case
    proof (cases "map_of m (task_id a)")
      case None
      with Cons.prems have
        "mergeRemoteTasks rc sts s (AList.update (task_id a) a m) rs = Inl e" by simp
      from Cons.IH[OF this] obtain pre r rest loaded existing where
        h: "rs = pre @ r # rest"
        "mergeRemoteTasks rc sts s (AList.update (task_id a) a m) pre = Inr loaded"
        "map_of loaded (task_id r) = Some existing" "rc existing r sts s = Inl e"
        by blast
      have "a # rs = (a # pre) @ r # rest" using h(1) by simp
      moreover have "mergeRemoteTasks rc sts s m (a # pre) = Inr loaded"
        using h(2) None by simp
      ultimately show ?thesis using h(3,4) by blast
    next
      case (Some ex)
      show ?thesis
      proof (cases "rc ex a sts s")
        case (Inl e')
        with Cons.prems Some have "e' = e" by simp
        then have "a # rs = [] @ a # rs \<and> mergeRemoteTasks rc sts s m [] = Inr m \<and>
            map_of m (task_id a) = Some ex \<and> rc ex a sts s = Inl e"
          using Some Inl by simp
        then show ?thesis by blast
      next
        case (Inr y)
        with Cons.prems Some have
          "mergeRemoteTasks rc sts s (AList.update (task_id a) y m) rs = Inl e" by simp
        from Cons.IH[OF this] obtain pre r rest loaded existing where
          h: "rs = pre @ r # rest"
          "mergeRemoteTasks rc sts s (AList.update (task_id a) y m) pre = Inr loaded"
          "map_of loaded (task_id r) = Some existing" "rc existing r sts s = Inl e"
          by blast
        have "a # rs = (a # pre) @ r # rest" using h(1) by simp
        moreover have "mergeRemoteTasks rc sts s m (a # pre) = Inr loaded"
          using h(2) Some Inr by simp
        ultimately show ?thesis using h(3,4) by blast
      qed
    qed
  qed
qed

lemma handleBoardView_fails:
  "handleBoardView rc latest keep cfg localTasks remote = Inl e \<longleftrightarrow>
   mergeRemoteTasks rc (configStatuses cfg) (resolutionStrategy cfg)
     (localTasksById localTasks) remote = Inl e"
  by (simp add: handleBoardView_def Let_def split: sum.splits)

text \<open>
  Claim C6, amended. The board pipeline replaces only a missing or empty strategy
  identifier by the default \<^verbatim>\<open>most_progressed\<close>. A non-empty identifier, recognized or
  not, is never replaced: the pipeline consults \<^verbatim>\<open>resolveTaskConflict\<close> with the
  configured statuses and this identifier and with no other, and only when the id of a
  remote record meets a record already loaded, be it local or an earlier remote one. The
  pipeline itself does not validate the identifier: while no id collides it completes for
  every identifier, and it fails exactly when the resolver rejects such a call, with the
  resolver's error.
\<close>

theorem handleBoardView_strategy:
  "resolutionStrategy None = ''most_progressed'' \<and>
   (\<not> truthy (taskResolutionStrategy c) \<longrightarrow> resolutionStrategy (Some c) = ''most_progressed'') \<and>
   (taskResolutionStrategy c = Some s \<and> s \<noteq> [] \<longrightarrow> resolutionStrategy (Some c) = s) \<and>
   ((\<forall>x y. rc x y (configStatuses cfg) (resolutionStrategy cfg) =
            rc' x y (configStatuses cfg) (resolutionStrategy cfg)) \<longrightarrow>
      handleBoardView rc latest keep cfg localTasks remote =
      handleBoardView rc' latest keep cfg localTasks remote) \<and>
   (distinct (map task_id remote) \<and> task_id ` set remote \<inter> task_id ` set localTasks = {} \<longrightarrow>
      handleBoardView rc latest keep cfg localTasks remote =
        Inr (keep (map snd (localTasksById localTasks) @ remote)
               (latest (map task_id (map snd (localTasksById localTasks) @ remote))))) \<and>
   ((handleBoardView rc latest keep cfg localTasks remote = Inl e) =
      (\<exists>pre r rest loaded existing.
         remote = pre @ r # rest \<and>
         mergeRemoteTasks rc (configStatuses cfg) (resolutionStrategy cfg)
           (localTasksById localTasks) pre = Inr loaded \<and>
         map_of loaded (task_id r) = Some existing \<and>
         rc existing r (configStatuses cfg) (resolutionStrategy cfg) = Inl e)) \<and>
   (taskResolutionStrategy c = Some s \<and> s \<noteq> [] \<and> distinct (map task_id pre) \<and>
    task_id ` set pre \<inter> task_id ` set localTasks = {} \<and>
    map_of (localTasksById localTasks @ map (\<lambda>q. (task_id q, q)) pre) (task_id r) = Some existing \<and>
    rc existing r (configStatuses (Some c)) s = Inl e \<longrightarrow>
      handleBoardView rc latest keep (Some c) localTasks (pre @ r # rest) = Inl e)"
proof (intro conjI impI)
  show "resolutionStrategy None = ''most_progressed''"
    by (simp add: resolutionStrategy_def)
  show "resolutionStrategy (Some c) = ''most_progressed''" if "\<not> truthy (taskResolutionStrategy c)"
    using that by (simp add: resolutionStrategy_def)
  show "resolutionStrategy (Some c) = s" if "taskResolutionStrategy c = Some s \<and> s \<noteq> []"
    using that by (simp add: resolutionStrategy_def truthy_def stringOr_def)
next
  assume "\<forall>x y. rc x y (configStatuses cfg) (resolutionStrategy cfg) =
            rc' x y (configStatuses cfg) (resolutionStrategy cfg)"
  then have "mergeRemoteTasks rc (configStatuses cfg) (resolutionStrategy cfg)
        (localTasksById localTasks) remote =
      mergeRemoteTasks rc' (configStatuses cfg) (resolutionStrategy cfg)
        (localTasksById localTasks) remote"
    by (intro mergeRemoteTasks_cong) simp
  then show "handleBoardView rc latest keep cfg localTasks remote =
      handleBoardView rc' latest keep cfg localTasks remote"
    by (simp add: handleBoardView_def Let_def)
next
  assume a: "distinct (map task_id remote) \<and>
    task_id ` set remote \<inter> task_id ` set localTasks = {}"
  then have "mergeRemoteTasks rc (configStatuses cfg) (resolutionStrategy cfg)
      (localTasksById localTasks) remote =
      Inr (localTasksById localTasks @ map (\<lambda>r. (task_id r, r)) remote)"
    by (intro mergeRemoteTasks_no_collision) (simp_all add: localTasksById_dom)
  then show "handleBoardView rc latest keep cfg localTasks remote =
        Inr (keep (map snd (localTasksById localTasks) @ remote)
               (latest (map task_id (map snd (localTasksById localTasks) @ remote))))"
    by (simp add: handleBoardView_def Let_def comp_def)
next
  show "(handleBoardView rc latest keep cfg localTasks remote = Inl e) =
      (\<exists>pre r rest loaded existing.
         remote = pre @ r # rest \<and>
         mergeRemoteTasks rc (configStatuses cfg) (resolutionStrategy cfg)
           (localTasksById localTasks) pre = Inr loaded \<and>
         map_of loaded (task_id r) = Some existing \<and>
         rc existing r (configStatuses cfg) (resolutionStrategy cfg) = Inl e)"
    unfolding handleBoardView_fails by (rule mergeRemoteTasks_fails_iff)
next
  assume a: "taskResolutionStrategy c = Some s \<and> s \<noteq> [] \<and> distinct (map task_id pre) \<and>
    task_id ` set pre \<inter> task_id ` set localTasks = {} \<and>
    map_of (localTasksById localTasks @ map (\<lambda>q. (task_id q, q)) pre) (task_id r) = Some existing \<and>
    rc existing r (configStatuses (Some c)) s = Inl e"
  let ?m = "localTasksById localTasks"
  let ?sts = "configStatuses (Some c)"
  have st: "resolutionStrategy (Some c) = s"
    using a by (simp add: resolutionStrategy_def truthy_def stringOr_def)
  have pre: "mergeRemoteTasks rc ?sts s ?m pre = Inr (?m @ map (\<lambda>q. (task_id q, q)) pre)"
    using a by (intro mergeRemoteTasks_no_collision) (simp_all add: localTasksById_dom)
  have look: "map_of (?m @ map (\<lambda>q. (task_id q, q)) pre) (task_id r) = Some existing"
    using a by blast
  have fail: "rc existing r ?sts s = Inl e" using a by blast
  have "mergeRemoteTasks rc ?sts s ?m (pre @ r # rest) = Inl e"
    unfolding mergeRemoteTasks_append pre using look fail by simp
  then show "handleBoardView rc latest keep (Some c) localTasks (pre @ r # rest) = Inl e"
    unfolding handleBoardView_fails st .
qed

theorem handleBoardView_strategy_witness:
  "resolutionStrategy (Some (configWith (Some ''newest_wins''))) = ''newest_wins'' \<and>
   handleBoardView rejectingResolver (\<lambda>ids. ()) (\<lambda>ts d. ts) (Some (configWith (Some ''newest_wins'')))
     [localOne] [remoteTwo] = Inr [localOne, remoteTwo] \<and>
   handleBoardView rejectingResolver (\<lambda>ids. ()) (\<lambda>ts d. ts) (Some (configWith (Some ''newest_wins'')))
     [localOne] [remoteTwo, remoteOne] = Inl ''newest_wins'' \<and>
   handleBoardView rejectingResolver (\<lambda>ids. ()) (\<lambda>ts d. ts) (Some (configWith (Some ''newest_wins'')))
     [localOne] [remoteTwo, remoteTwoOther] = Inl ''newest_wins''"
proof -
  let ?c = "configWith (Some ''newest_wins'')"
  note t = handleBoardView_strategy[where c = ?c and s = "''newest_wins''" and localTasks = "[localOne]"
      and rc = rejectingResolver and latest = "\<lambda>ids. ()" and keep = "\<lambda>ts d. ts"]
  have m: "localTasksById [localOne] = [(''task-1'', localOne)]" by code_simp
  have h0: "taskResolutionStrategy ?c = Some ''newest_wins'' \<and> ''newest_wins'' \<noteq> []"
    by (simp add: configWith_def)
  have c0: "resolutionStrategy (Some ?c) = ''newest_wins''"
    using t[THEN conjunct2, THEN conjunct2, THEN conjunct1] h0 by simp
  have h1: "distinct (map task_id [remoteTwo]) \<and> task_id ` set [remoteTwo] \<inter> task_id ` set [localOne] = {}"
    by code_simp
  have c1: "handleBoardView rejectingResolver (\<lambda>ids. ()) (\<lambda>ts d. ts) (Some ?c)
     [localOne] [remoteTwo] = Inr [localOne, remoteTwo]"
    using t[where remote = "[remoteTwo]" and cfg = "Some ?c",
        THEN conjunct2, THEN conjunct2, THEN conjunct2, THEN conjunct2, THEN conjunct1] h1
    by (simp add: m)
  have h2: "taskResolutionStrategy ?c = Some ''newest_wins'' \<and> ''newest_wins'' \<noteq> [] \<and>
    distinct (map task_id [remoteTwo]) \<and>
    task_id ` set [remoteTwo] \<inter> task_id ` set [localOne] = {} \<and>
    map_of (localTasksById [localOne] @ map (\<lambda>q. (task_id q, q)) [remoteTwo]) (task_id remoteOne)
      = Some localOne \<and>
    rejectingResolver localOne remoteOne (configStatuses (Some ?c)) ''newest_wins'' = Inl ''newest_wins''"
    by code_simp
  have c2: "handleBoardView rejectingResolver (\<lambda>ids. ()) (\<lambda>ts d. ts) (Some ?c)
     [localOne] [remoteTwo, remoteOne] = Inl ''newest_wins''"
    using t[where pre = "[remoteTwo]" and r = remoteOne and existing = localOne
        and e = "''newest_wins''" and rest = "[]",
        THEN conjunct2, THEN conjunct2, THEN conjunct2, THEN conjunct2, THEN conjunct2,
        THEN conjunct2] h2
    by simp
  have h3: "taskResolutionStrategy ?c = Some ''newest_wins'' \<and> ''newest_wins'' \<noteq> [] \<and>
    distinct (map task_id [remoteTwo]) \<and>
    task_id ` set [remoteTwo] \<inter> task_id ` set [localOne] = {} \<and>
    map_of (localTasksById [localOne] @ map (\<lambda>q. (task_id q, q)) [remoteTwo]) (task_id remoteTwoOther)
      = Some remoteTwo \<and>
    rejectingResolver remoteTwo remoteTwoOther (configStatuses (Some ?c)) ''newest_wins'' =
      Inl ''newest_wins''"
    by code_simp
  have c3: "handleBoardView rejectingResolver (\<lambda>ids. ()) (\<lambda>ts d. ts) (Some ?c)
     [localOne] [remoteTwo, remoteTwoOther] = Inl ''newest_wins''"
    using t[where pre = "[remoteTwo]" and r = remoteTwoOther and existing = remoteTwo
        and e = "''newest_wins''" and rest = "[]",
        THEN conjunct2, THEN conjunct2, THEN conjunct2, THEN conjunct2, THEN conjunct2,
        THEN conjunct2] h3
    by simp
  show ?thesis using c0 c1 c2 c3 by (intro conjI)
qed

text \<open>
  Claim C6 as stated makes the pipeline fail for every unrecognized identifier. With an
  unrecognized identifier and no colliding id the pipeline completes, even though the
  resolver it was given rejects every call; and the empty identifier is replaced by the
  default.
\<close>

theorem handleBoardView_unvalidated_counterexample:
  "handleBoardView rejectingResolver (\<lambda>ids. ()) (\<lambda>ts d. ts) (Some (configWith (Some ''newest_wins'')))
     [localOne] [remoteTwo] = Inr [localOne, remoteTwo] \<and>
   resolutionStrategy (Some (configWith (Some []))) = ''most_progressed''"
  by code_simp

section \<open>Conflict resolution selects a whole record\<close>

lemma resolveTaskConflict_cases:
  "resolveTaskConflict l r sts s = Inr x \<Longrightarrow> x = l \<or> x = r"
  by (auto simp: resolveTaskConflict_def Let_def split: if_splits)

lemma resolveTaskConflict_total:
  "s = ''most_progressed'' \<or> s = ''most_recent'' \<Longrightarrow>
   resolveTaskConflict l r sts s = Inr l \<or> resolveTaskConflict l r sts s = Inr r"
  by (auto simp: resolveTaskConflict_def Let_def)

lemma mergeRemoteTasks_total:
  assumes "\<And>e r. \<exists>x. rc e r sts s = Inr x"
  shows "\<exists>m'. mergeRemoteTasks rc sts s m rs = Inr m'"
proof (induction rs arbitrary: m)
  case Nil
  then show ?case by simp
next
  case (Cons r rs)
  show ?case
  proof (cases "map_of m (task_id r)")
    case None
    then show ?thesis using Cons.IH by simp
  next
    case (Some e)
    obtain x where "rc e r sts s = Inr x" using assms by blast
    then show ?thesis using Some Cons.IH by simp
  qed
qed

lemma mergeRemoteTasks_origin:
  assumes sel: "\<And>e r x. rc e r sts s = Inr x \<Longrightarrow> x = e \<or> x = r"
    and "mergeRemoteTasks rc sts s m rs = Inr m'"
    and "map_of m' k = Some x"
  shows "map_of m k = Some x \<or> (x \<in> set rs \<and> task_id x = k)"
  using assms(2,3)
proof (induction rs arbitrary: m)
  case Nil
  then show ?case by simp
next
  case (Cons r rs)
  show ?case
  proof (cases "map_of m (task_id r)")
    case None
    with Cons.prems have "mergeRemoteTasks rc sts s (AList.update (task_id r) r m) rs = Inr m'"
      by simp
    from Cons.IH[OF this Cons.prems(2)] show ?thesis
      by (auto simp: update_conv' split: if_splits)
  next
    case (Some e)
    with Cons.prems obtain y where y: "rc e r sts s = Inr y"
      and rest: "mergeRemoteTasks rc sts s (AList.update (task_id r) y m) rs = Inr m'"
      by (auto split: sum.splits)
    from sel[OF y] Cons.IH[OF rest Cons.prems(2)] Some show ?thesis
      by (auto simp: update_conv' split: if_splits)
  qed
qed

lemma mergeRemoteTasks_untouched:
  assumes "mergeRemoteTasks rc sts s m rs = Inr m'" and "k \<notin> task_id ` set rs"
  shows "map_of m' k = map_of m k"
  using assms
proof (induction rs arbitrary: m)
  case Nil
  then show ?case by simp
next
  case (Cons r rs)
  have k: "k \<noteq> task_id r" "k \<notin> task_id ` set rs" using Cons.prems(2) by auto
  show ?case
  proof (cases "map_of m (task_id r)")
    case None
    with Cons.prems have "mergeRemoteTasks rc sts s (AList.update (task_id r) r m) rs = Inr m'"
      by simp
    from Cons.IH[OF this k(2)] show ?thesis using k(1) by (simp add: update_conv')
  next
    case (Some e)
    with Cons.prems obtain y where
      rest: "mergeRemoteTasks rc sts s (AList.update (task_id r) y m) rs = Inr m'"
      by (auto split: sum.splits)
    from Cons.IH[OF rest k(2)] show ?thesis using k(1) by (simp add: update_conv')
  qed
qed

lemma mergeRemoteTasks_remote_only:
  assumes "mergeRemoteTasks rc sts s m (pre @ r # post) = Inr m'"
    and "task_id r \<notin> task_id ` set (pre @ post)"
    and "map_of m (task_id r) = None"
  shows "map_of m' (task_id r) = Some r"
proof -
  from assms(1) obtain m1 where
    m1: "mergeRemoteTasks rc sts s m pre = Inr m1"
    and rest: "mergeRemoteTasks rc sts s m1 (r # post) = Inr m'"
    by (auto simp: mergeRemoteTasks_append split: sum.splits)
  have "map_of m1 (task_id r) = None"
    using mergeRemoteTasks_untouched[OF m1, of "task_id r"] assms(2,3) by auto
  with rest have post: "mergeRemoteTasks rc sts s (AList.update (task_id r) r m1) post = Inr m'"
    by simp
  have "task_id r \<notin> task_id ` set post" using assms(2) by auto
  from mergeRemoteTasks_untouched[OF post this] show ?thesis
    by (simp add: update_conv')
qed

text \<open>
  Claim C7. The record that conflict resolution produces for two records of one id is, by
  value, one of the two (and under a recognized strategy there always is such a record).
  In the merge of the board every record of the result is a record that went in, local
  or remote; a record whose id no remote record has stays as it is, and a remote record
  whose id nothing else has is taken as it is.
\<close>

theorem resolveTaskConflict_selects_input:
  "(\<forall>x. resolveTaskConflict l r sts s = Inr x \<longrightarrow> x = l \<or> x = r) \<and>
   (s = ''most_progressed'' \<or> s = ''most_recent'' \<longrightarrow>
      (resolveTaskConflict l r sts s = Inr l \<or> resolveTaskConflict l r sts s = Inr r) \<and>
      (\<exists>m'. mergeRemoteTasks resolveTaskConflict sts s m rs = Inr m')) \<and>
   (\<forall>m'. mergeRemoteTasks resolveTaskConflict sts s m rs = Inr m' \<longrightarrow>
      (\<forall>k x. map_of m' k = Some x \<longrightarrow> map_of m k = Some x \<or> (x \<in> set rs \<and> task_id x = k)) \<and>
      (\<forall>k. k \<notin> task_id ` set rs \<longrightarrow> map_of m' k = map_of m k) \<and>
      (\<forall>pre q post. rs = pre @ q # post \<and> task_id q \<notin> task_id ` set (pre @ post) \<and>
         map_of m (task_id q) = None \<longrightarrow> map_of m' (task_id q) = Some q))"
proof (intro conjI allI impI)
  show "x = l \<or> x = r" if "resolveTaskConflict l r sts s = Inr x" for x
    using that by (rule resolveTaskConflict_cases)
next
  assume s: "s = ''most_progressed'' \<or> s = ''most_recent''"
  show "resolveTaskConflict l r sts s = Inr l \<or> resolveTaskConflict l r sts s = Inr r"
    using s by (rule resolveTaskConflict_total)
  have "\<exists>x. resolveTaskConflict e q sts s = Inr x" for e q
    using resolveTaskConflict_total[OF s, of e q sts] by auto
  then show "\<exists>m'. mergeRemoteTasks resolveTaskConflict sts s m rs = Inr m'"
    by (rule mergeRemoteTasks_total)
next
  fix m' k x
  assume "mergeRemoteTasks resolveTaskConflict sts s m rs = Inr m'" and "map_of m' k = Some x"
  then show "map_of m k = Some x \<or> (x \<in> set rs \<and> task_id x = k)"
    using resolveTaskConflict_cases mergeRemoteTasks_origin[of resolveTaskConflict sts s m rs m' k x]
    by blast
next
  fix m' k
  assume "mergeRemoteTasks resolveTaskConflict sts s m rs = Inr m'" and "k \<notin> task_id ` set rs"
  then show "map_of m' k = map_of m k" by (rule mergeRemoteTasks_untouched)
next
  fix m' pre q post
  assume a: "mergeRemoteTasks resolveTaskConflict sts s m rs = Inr m'"
    and b: "rs = pre @ q # post \<and> task_id q \<notin> task_id ` set (pre @ post) \<and>
         map_of m (task_id q) = None"
  from a b have "mergeRemoteTasks resolveTaskConflict sts s m (pre @ q # post) = Inr m'" by simp
  then show "map_of m' (task_id q) = Some q"
    using b by (intro mergeRemoteTasks_remote_only) blast+
qed

theorem resolveTaskConflict_selects_input_witness:
  "resolveTaskConflict localOne remoteOne exampleStatuses ''most_progressed'' = Inr remoteOne \<and>
   resolveTaskConflict localOne remoteOne exampleStatuses ''most_recent'' = Inr localOne \<and>
   mergeRemoteTasks resolveTaskConflict exampleStatuses ''most_progressed''
     (localTasksById [localOne]) [remoteTwo, remoteOne] =
     Inr [(''task-1'', remoteOne), (''task-2'', remoteTwo)] \<and>
   map_of [(''task-1'', remoteOne), (''task-2'', remoteTwo)] (task_id remoteTwo) = Some remoteTwo"
proof -
  note t = resolveTaskConflict_selects_input[of localOne remoteOne exampleStatuses
      "''most_progressed''" "localTasksById [localOne]" "[remoteTwo, remoteOne]"]
  have e1: "resolveTaskConflict localOne remoteOne exampleStatuses ''most_progressed'' \<noteq> Inr localOne"
    by code_simp
  have c1: "resolveTaskConflict localOne remoteOne exampleStatuses ''most_progressed'' = Inr remoteOne"
    using t[THEN conjunct2, THEN conjunct1] e1 by simp
  have c2: "resolveTaskConflict localOne remoteOne exampleStatuses ''most_recent'' = Inr localOne"
    by code_simp
  have c3: "mergeRemoteTasks resolveTaskConflict exampleStatuses ''most_progressed''
     (localTasksById [localOne]) [remoteTwo, remoteOne] =
     Inr [(''task-1'', remoteOne), (''task-2'', remoteTwo)]"
    by code_simp
  have h: "[remoteTwo, remoteOne] = [] @ remoteTwo # [remoteOne] \<and>
      task_id remoteTwo \<notin> task_id ` set ([] @ [remoteOne]) \<and>
      map_of (localTasksById [localOne]) (task_id remoteTwo) = None"
    by code_simp
  have c4: "map_of [(''task-1'', remoteOne), (''task-2'', remoteTwo)] (task_id remoteTwo) = Some remoteTwo"
    using t[THEN conjunct2, THEN conjunct2, rule_format, OF c3, THEN conjunct2, THEN conjunct2,
        rule_format, OF h] .
  show ?thesis using c1 c2 c3 c4 by (intro conjI)
qed

section \<open>The latest location\<close>

lemma kindRank_inj: "kindRank a = kindRank b \<Longrightarrow> a = b"
  by (cases a; cases b) simp_all

lemma branch_eq: "originRank a = originRank b \<Longrightarrow> branchName a = branchName b \<Longrightarrow> a = b"
  by (cases a; cases b) simp_all

lemma preferred_irrefl: "\<not> preferred a a"
  by (simp add: preferred_def)

lemma preferred_neg_trans:
  "\<not> preferred a b \<Longrightarrow> \<not> preferred b c \<Longrightarrow> \<not> preferred a c"
  unfolding preferred_def by (auto simp: not_less)

lemma preferred_trans: "preferred a b \<Longrightarrow> preferred b c \<Longrightarrow> preferred a c"
  unfolding preferred_def by auto

lemma preferred_antisym:
  assumes "obs_taskId a = obs_taskId b" and "\<not> preferred a b" and "\<not> preferred b a"
  shows "a = b"
proof -
  have t: "timestamp a = timestamp b" using assms(2,3) unfolding preferred_def by auto
  have k: "kindRank (locationKind a) = kindRank (locationKind b)"
    using assms(2,3) t unfolding preferred_def by auto
  have o: "originRank (obs_branch a) = originRank (obs_branch b)"
    using assms(2,3) t k unfolding preferred_def by auto
  have n: "branchName (obs_branch a) = branchName (obs_branch b)"
    using assms(2,3) t k o unfolding preferred_def by auto
  show ?thesis
    using assms(1) t kindRank_inj[OF k] branch_eq[OF o n] by simp
qed

lemma fold_resolveStep_other:
  "tid \<notin> obs_taskId ` set obs \<Longrightarrow> fold resolveStep obs m tid = m tid"
  by (induction obs arbitrary: m) (auto simp: resolveStep_def split: option.splits)

lemma fold_resolveStep_defined:
  "m tid \<noteq> None \<or> tid \<in> obs_taskId ` set obs \<Longrightarrow> \<exists>r. fold resolveStep obs m tid = Some r"
proof (induction obs arbitrary: m)
  case Nil
  then show ?case by auto
next
  case (Cons ob obs)
  have "resolveStep ob m tid \<noteq> None \<or> tid \<in> obs_taskId ` set obs"
    using Cons.prems by (auto simp: resolveStep_def split: option.splits)
  from Cons.IH[of "resolveStep ob m", OF this] show ?case by simp
qed

lemma fold_resolveStep_member:
  "fold resolveStep obs m tid = Some r \<Longrightarrow>
   m tid = Some r \<or> (r \<in> set obs \<and> obs_taskId r = tid)"
proof (induction obs arbitrary: m)
  case Nil
  then show ?case by simp
next
  case (Cons ob obs)
  from Cons.prems have "fold resolveStep obs (resolveStep ob m) tid = Some r" by simp
  from Cons.IH[OF this] show ?case
    by (auto simp: resolveStep_def split: option.splits if_splits)
qed

lemma fold_resolveStep_best:
  "fold resolveStep obs m tid = Some r \<Longrightarrow>
   (\<forall>c. m tid = Some c \<longrightarrow> \<not> preferred c r) \<and>
   (\<forall>ob\<in>set obs. obs_taskId ob = tid \<longrightarrow> \<not> preferred ob r)"
proof (induction obs arbitrary: m)
  case Nil
  then show ?case by (simp add: preferred_irrefl)
next
  case (Cons ob obs)
  from Cons.prems have f: "fold resolveStep obs (resolveStep ob m) tid = Some r" by simp
  note ih = Cons.IH[OF f]
  show ?case
  proof (cases "obs_taskId ob = tid")
    case False
    then have "resolveStep ob m tid = m tid"
      by (auto simp: resolveStep_def split: option.splits)
    then show ?thesis using ih False by auto
  next
    case True
    show ?thesis
    proof (cases "m tid")
      case None
      then have "resolveStep ob m tid = Some ob"
        using True by (simp add: resolveStep_def)
      then show ?thesis using ih None by auto
    next
      case (Some cur)
      show ?thesis
      proof (cases "preferred ob cur")
        case p: True
        then have "resolveStep ob m tid = Some ob"
          using True Some by (simp add: resolveStep_def)
        then have "\<not> preferred ob r" using ih by auto
        moreover from this p have "\<not> preferred cur r"
          using preferred_trans by blast
        ultimately show ?thesis using ih Some by auto
      next
        case np: False
        then have "resolveStep ob m tid = Some cur"
          using True Some by (simp add: resolveStep_def)
        then have "\<not> preferred cur r" using ih by auto
        moreover from np this have "\<not> preferred ob r"
          by (rule preferred_neg_trans)
        ultimately show ?thesis using ih Some by auto
      qed
    qed
  qed
qed

lemma resolveLocations_member:
  "resolveLocations obs tid = Some r \<Longrightarrow> r \<in> set obs \<and> obs_taskId r = tid"
  using fold_resolveStep_member[of obs Map.empty tid r] by (simp add: resolveLocations_def)

lemma resolveLocations_best:
  "resolveLocations obs tid = Some r \<Longrightarrow> ob \<in> set obs \<Longrightarrow> obs_taskId ob = tid \<Longrightarrow>
   \<not> preferred ob r"
  using fold_resolveStep_best[of obs Map.empty tid r] by (simp add: resolveLocations_def)

lemma resolveLocations_defined:
  "tid \<in> obs_taskId ` set obs \<Longrightarrow> \<exists>r. resolveLocations obs tid = Some r"
  using fold_resolveStep_defined[of Map.empty tid obs] by (simp add: resolveLocations_def)

lemma resolveLocations_absent:
  "tid \<notin> obs_taskId ` set obs \<Longrightarrow> resolveLocations obs tid = None"
  using fold_resolveStep_other[of tid obs Map.empty] by (simp add: resolveLocations_def)

lemma not_preferred_timestamp: "\<not> preferred ob r \<Longrightarrow> timestamp ob \<le> timestamp r"
  unfolding preferred_def by auto

lemma not_preferred_kind:
  "\<not> preferred ob r \<Longrightarrow> timestamp ob = timestamp r \<Longrightarrow>
   kindRank (locationKind ob) \<le> kindRank (locationKind r)"
  unfolding preferred_def by auto

text \<open>
  Claim C8. Every task id that has an observation gets a resolved location; it is one
  of the observations of that id with the greatest timestamp, and among the observations
  that share this timestamp none has a kind of higher preference, where active is
  preferred to draft and draft to archived. An active and an archived observation with
  equal timestamps resolve to the active one.
\<close>

theorem resolveLocations_tie_break:
  "(tid \<in> obs_taskId ` set obs \<longrightarrow> (\<exists>r. resolveLocations obs tid = Some r)) \<and>
   (\<forall>r. resolveLocations obs tid = Some r \<longrightarrow>
      r \<in> set obs \<and> obs_taskId r = tid \<and>
      (\<forall>ob\<in>set obs. obs_taskId ob = tid \<longrightarrow>
         timestamp ob \<le> timestamp r \<and>
         (timestamp ob = timestamp r \<longrightarrow>
            kindRank (locationKind ob) \<le> kindRank (locationKind r) \<and>
            (locationKind ob = Active \<longrightarrow> locationKind r = Active) \<and>
            (locationKind ob = Draft \<longrightarrow> locationKind r \<noteq> Archived))))"
proof (intro conjI allI impI ballI)
  show "\<exists>r. resolveLocations obs tid = Some r" if "tid \<in> obs_taskId ` set obs"
    using that by (rule resolveLocations_defined)
next
  fix r
  assume r: "resolveLocations obs tid = Some r"
  show "r \<in> set obs" and "obs_taskId r = tid"
    using resolveLocations_member[OF r] by simp_all
  fix ob
  assume ob: "ob \<in> set obs" "obs_taskId ob = tid"
  have np: "\<not> preferred ob r" using r ob by (rule resolveLocations_best)
  show "timestamp ob \<le> timestamp r" using np by (rule not_preferred_timestamp)
  assume eq: "timestamp ob = timestamp r"
  show k: "kindRank (locationKind ob) \<le> kindRank (locationKind r)"
    using np eq by (rule not_preferred_kind)
  show "locationKind r = Active" if "locationKind ob = Active"
    using k that by (cases "locationKind r") simp_all
  show "locationKind r \<noteq> Archived" if "locationKind ob = Draft"
    using k that by (cases "locationKind r") simp_all
qed

theorem resolveLocations_tie_break_witness:
  "''task-1'' \<in> obs_taskId ` set exampleObservations \<and>
   resolveLocations exampleObservations ''task-1'' =
     Some (observed ''task-1'' (Branch ''origin/feature'') Active 20) \<and>
   resolveLocations
     [observed ''task-1'' (Branch ''origin/feature'') Active 20,
      observed ''task-1'' (Branch ''origin/main'') Archived 20] ''task-1'' =
     Some (observed ''task-1'' (Branch ''origin/feature'') Active 20)"
proof -
  let ?a = "observed ''task-1'' (Branch ''origin/feature'') Active 20"
  let ?b = "observed ''task-1'' (Branch ''origin/main'') Archived 20"
  have i: "''task-1'' \<in> obs_taskId ` set exampleObservations" by code_simp
  from resolveLocations_tie_break[of "''task-1''" exampleObservations, THEN conjunct1] i
  obtain r where r: "resolveLocations exampleObservations ''task-1'' = Some r" by blast
  have v: "resolveLocations exampleObservations ''task-1'' = Some ?a" by code_simp
  have w: "resolveLocations [?a, ?b] ''task-1'' = Some ?a" by code_simp
  show ?thesis using i r v w by (intro conjI)
qed

section \<open>Resolution does not depend on the order of the observations\<close>

text \<open>
  Claim C9. The resolved locations are a function of the set of observations alone: two
  runs over the same observations, collected in any order, give the same resolved
  location for every task id. Nothing but the observations, with their timestamps,
  enters the result.
\<close>

theorem resolveLocations_order_independent:
  assumes "set obs = set obs'"
  shows "resolveLocations obs = resolveLocations obs'"
proof
  fix tid
  show "resolveLocations obs tid = resolveLocations obs' tid"
  proof (cases "tid \<in> obs_taskId ` set obs")
    case False
    then show ?thesis using assms by (simp add: resolveLocations_absent)
  next
    case True
    then obtain r where r: "resolveLocations obs tid = Some r"
      using resolveLocations_defined by blast
    from True assms obtain r' where r': "resolveLocations obs' tid = Some r'"
      using resolveLocations_defined[of tid obs'] by auto
    note m = resolveLocations_member[OF r] and m' = resolveLocations_member[OF r']
    have "\<not> preferred r' r"
      using resolveLocations_best[OF r, of r'] m' assms by simp
    moreover have "\<not> preferred r r'"
      using resolveLocations_best[OF r', of r] m assms by simp
    ultimately have "r = r'"
      using preferred_antisym[of r r'] m m' by simp
    then show ?thesis using r r' by simp
  qed
qed

theorem resolveLocations_order_independent_witness:
  "set exampleObservations = set (rev exampleObservations) \<and>
   exampleObservations \<noteq> rev exampleObservations \<and>
   resolveLocations exampleObservations = resolveLocations (rev exampleObservations) \<and>
   resolveLocations (rev exampleObservations) ''task-1'' =
     Some (observed ''task-1'' (Branch ''origin/feature'') Active 20)"
proof -
  have s: "set exampleObservations = set (rev exampleObservations)" by simp
  have n: "exampleObservations \<noteq> rev exampleObservations" by code_simp
  have v: "resolveLocations (rev exampleObservations) ''task-1'' =
     Some (observed ''task-1'' (Branch ''origin/feature'') Active 20)" by code_simp
  show ?thesis
    using s n resolveLocations_order_independent[OF s] v by (intro conjI)
qed

section \<open>The board shows the active tasks\<close>

lemma assemble_records:
  "set (concat (map snd (assemble resolved statusOrder))) =
     resolvedRecord ` {r \<in> set resolved. locationKind (resolvedLocation r) = Active}"
  unfolding assemble_def filterTasksByLatestState_def listGroups_tasks_set by auto

text \<open>
  Claim C1. The records in the assembled board are exactly the records of the resolved
  tasks whose resolved location is active. With one resolved task per id, a resolved task
  is on the board if and only if its location is active: the tasks whose latest location
  is draft or archived are filtered out, the active ones are kept.
\<close>

theorem assemble_active_only:
  "set (concat (map snd (assemble resolved statusOrder))) =
     resolvedRecord ` {r \<in> set resolved. locationKind (resolvedLocation r) = Active} \<and>
   (distinct (map (task_id \<circ> resolvedRecord) resolved) \<longrightarrow>
      (\<forall>r\<in>set resolved.
         (resolvedRecord r \<in> set (concat (map snd (assemble resolved statusOrder)))) =
         (locationKind (resolvedLocation r) = Active)))"
proof (intro conjI impI ballI)
  show "set (concat (map snd (assemble resolved statusOrder))) =
     resolvedRecord ` {r \<in> set resolved. locationKind (resolvedLocation r) = Active}"
    by (rule assemble_records)
next
  fix r
  assume d: "distinct (map (task_id \<circ> resolvedRecord) resolved)" and r: "r \<in> set resolved"
  have inj: "inj_on (task_id \<circ> resolvedRecord) (set resolved)"
    using d by (simp add: distinct_map)
  show "(resolvedRecord r \<in> set (concat (map snd (assemble resolved statusOrder)))) =
         (locationKind (resolvedLocation r) = Active)"
  proof
    assume "resolvedRecord r \<in> set (concat (map snd (assemble resolved statusOrder)))"
    then obtain q where q: "q \<in> set resolved" "locationKind (resolvedLocation q) = Active"
      "resolvedRecord q = resolvedRecord r"
      unfolding assemble_records by auto
    then have "(task_id \<circ> resolvedRecord) q = (task_id \<circ> resolvedRecord) r" by simp
    then have "q = r" using inj q(1) r by (simp add: inj_on_def)
    then show "locationKind (resolvedLocation r) = Active" using q(2) by simp
  next
    assume "locationKind (resolvedLocation r) = Active"
    then show "resolvedRecord r \<in> set (concat (map snd (assemble resolved statusOrder)))"
      unfolding assemble_records using r by auto
  qed
qed

theorem assemble_active_only_witness:
  "distinct (map (task_id \<circ> resolvedRecord) exampleResolved) \<and>
   map (map task_id \<circ> snd) (assemble exampleResolved exampleStatuses) = [[''task-1''], [''task-3'']] \<and>
   map (locationKind \<circ> resolvedLocation) exampleResolved = [Active, Draft, Active, Archived] \<and>
   set (concat (map snd (assemble exampleResolved exampleStatuses))) =
     resolvedRecord ` {r \<in> set exampleResolved. locationKind (resolvedLocation r) = Active}"
proof -
  have d: "distinct (map (task_id \<circ> resolvedRecord) exampleResolved)" by code_simp
  have g: "map (map task_id \<circ> snd) (assemble exampleResolved exampleStatuses) =
      [[''task-1''], [''task-3'']]" by code_simp
  have k: "map (locationKind \<circ> resolvedLocation) exampleResolved = [Active, Draft, Active, Archived]"
    by code_simp
  note t = assemble_active_only[of exampleResolved exampleStatuses]
  show ?thesis using d g k t[THEN conjunct1] by (intro conjI)
qed

end
